theory Spec2Isabelle
  imports Main
begin

section \<open>The message counter of \<^verbatim>\<open>src/utils/count_messages.py\<close>\<close>

text \<open>
  The script pages through the history of one channel of an external message store and
  counts the messages whose timetoken lies in a requested range. The store is reached
  through the vendor SDK only, so it is a parameter of the model: any function from the
  request and the store's current state to a response and the store's next state.
\<close>

subsection \<open>Data\<close>

text \<open>A stored message. The counter reads only \<^verbatim>\<open>int(msg.timetoken)\<close>.\<close>

record message =
  timetoken :: int
  payload :: string

text \<open>The keyword arguments of \<^verbatim>\<open>pubnub.fetch_messages\<close>; an absent key is \<open>None\<close>.\<close>

record fetch_params =
  p_channels :: "string list"
  p_count :: nat
  p_start :: "int option"
  p_end :: "int option"
  p_include_meta :: bool
  p_include_uuid :: bool

text \<open>
  The envelope that \<^verbatim>\<open>.sync()\<close> returns: \<^verbatim>\<open>status.is_error()\<close> and the dictionary
  \<^verbatim>\<open>result.channels\<close>, kept as an association list read with \<^const>\<open>map_of\<close>.
\<close>

record envelope =
  status_is_error :: bool
  result_channels :: "(string \<times> message list) list"

text \<open>A fetch either raises (the two \<^verbatim>\<open>except\<close> clauses of the counter) or returns.\<close>

datatype exn = PubNubException | OtherException

datatype fetched = Raises exn | Returns envelope

type_synonym 's sdk = "fetch_params \<Rightarrow> 's \<Rightarrow> fetched \<times> 's"

text \<open>
  What a run does to the outside: every call of the store with its answer, and the lines
  the script prints that announce a procedure, a detection or an error.
  \<open>Filtered_batch\<close> stands for the line \<^verbatim>\<open>Filtered batch: N messages\<close> (and, in the
  backward search, \<^verbatim>\<open>Found .. messages, N match criteria\<close>) and keeps the messages whose
  number \<open>N\<close> is added to the count; \<open>Next_cursor\<close> is the line
  \<^verbatim>\<open>Next iteration will use start timetoken\<close>. Lines that only describe a batch or the
  reason of a stop are left out.
\<close>

datatype event =
    Count_started
  | Full_scan_started
  | Bisection_started
  | Fetch fetch_params fetched
  | Ignoring_start_detected
  | Filtered_batch "message list"
  | Next_cursor int
  | Error_fetching
  | No_messages_found
  | Pubnub_error
  | Unexpected_error
  | Validation_error
  | Total_message_count nat

record 's world =
  store :: 's
  console :: "event list"

definition say :: "event \<Rightarrow> 's world \<Rightarrow> 's world" where
  "say ev w = w\<lparr>console := console w @ [ev]\<rparr>"

definition fetch_messages :: "'s sdk \<Rightarrow> fetch_params \<Rightarrow> 's world \<Rightarrow> fetched \<times> 's world" where
  "fetch_messages sdk p w =
     (case sdk p (store w) of
        (r, s') \<Rightarrow> (r, \<lparr>store = s', console = console w @ [Fetch p r]\<rparr>))"

subsection \<open>Python's truth value of an optional integer\<close>

text \<open>\<^verbatim>\<open>if x:\<close> on an \<^verbatim>\<open>Optional[int]\<close> holds when \<open>x\<close> is neither \<^verbatim>\<open>None\<close> nor 0.\<close>

definition truthy :: "int option \<Rightarrow> bool" where
  "truthy x = (case x of None \<Rightarrow> False | Some v \<Rightarrow> v \<noteq> 0)"

text \<open>\<^verbatim>\<open>x and P(x)\<close>: the test \<open>P\<close> is only evaluated on a truthy \<open>x\<close>.\<close>

definition truthy_and :: "int option \<Rightarrow> (int \<Rightarrow> bool) \<Rightarrow> bool" where
  "truthy_and x P = (case x of None \<Rightarrow> False | Some v \<Rightarrow> v \<noteq> 0 \<and> P v)"

text \<open>
  \<^verbatim>\<open>max([int(msg.timetoken) for msg in ms])\<close> and the same with \<^verbatim>\<open>min\<close>. Python raises on
  an empty list; every use below is guarded by a non-empty batch, as in the source.
\<close>

definition newest :: "message list \<Rightarrow> int" where
  "newest ms = Max (set (map timetoken ms))"

definition oldest :: "message list \<Rightarrow> int" where
  "oldest ms = Min (set (map timetoken ms))"

subsection \<open>\<^verbatim>\<open>find_actual_start_near_end\<close>\<close>

definition search_ranges :: "int list" where
  "search_ranges = [2 * 10 ^ 7, 5 * 10 ^ 7, 10 ^ 8, 10 ^ 9, 10 ^ 10]"

definition search_params :: "string \<Rightarrow> int \<Rightarrow> int \<Rightarrow> int \<Rightarrow> fetch_params" where
  "search_params channel original_start end_timetoken range_size =
     (let test_start = end_timetoken - range_size;
          test_start = (if test_start < original_start then original_start else test_start)
      in \<lparr>p_channels = [channel], p_count = 100, p_start = Some test_start,
          p_end = Some end_timetoken, p_include_meta = False, p_include_uuid = False\<rparr>)"

text \<open>
  The \<^verbatim>\<open>for range_size in search_ranges\<close> loop. It has no \<^verbatim>\<open>try\<close>: an exception of the
  fetch leaves the function (\<open>Inl\<close>). With \<^verbatim>\<open>original_start = None\<close> the comparison
  \<^verbatim>\<open>test_start < original_start\<close> raises a TypeError before the first fetch.
\<close>

fun search_loop ::
  "'s sdk \<Rightarrow> string \<Rightarrow> int option \<Rightarrow> int \<Rightarrow> int list \<Rightarrow> 's world \<Rightarrow> (exn + nat) \<times> 's world"
where
  "search_loop sdk channel original_start end_timetoken [] w = (Inr 0, w)"
| "search_loop sdk channel original_start end_timetoken (range_size # rest) w =
     (case original_start of
        None \<Rightarrow> (Inl OtherException, w)
      | Some os \<Rightarrow>
         (case fetch_messages sdk (search_params channel os end_timetoken range_size) w of
            (Raises e, w1) \<Rightarrow> (Inl e, w1)
          | (Returns envelope, w1) \<Rightarrow>
              if status_is_error envelope
              then search_loop sdk channel original_start end_timetoken rest w1
              else
                (case map_of (result_channels envelope) channel of
                   None \<Rightarrow> search_loop sdk channel original_start end_timetoken rest w1
                 | Some raw_messages \<Rightarrow>
                     (let message_count = length raw_messages in
                      if message_count > 0
                      then
                        (let matching = filter (\<lambda>msg. timetoken msg > os \<and>
                                                      timetoken msg \<le> end_timetoken) raw_messages;
                             count = length matching;
                             w2 = say (Filtered_batch matching) w1
                         in if message_count < 100 then (Inr count, w2) else (Inr count, w2))
                      else search_loop sdk channel original_start end_timetoken rest w1))))"

definition find_actual_start_near_end ::
  "'s sdk \<Rightarrow> string \<Rightarrow> int option \<Rightarrow> int \<Rightarrow> 's world \<Rightarrow> (exn + nat) \<times> 's world"
where
  "find_actual_start_near_end sdk channel original_start end_timetoken w =
     search_loop sdk channel original_start end_timetoken search_ranges (say Bisection_started w)"

subsection \<open>\<^verbatim>\<open>count_messages_in_channel\<close>\<close>

text \<open>The local variables of the \<^verbatim>\<open>while True\<close> loop.\<close>

record locals =
  total_count :: nat
  current_start :: "int option"
  first_iteration :: bool
  previous_oldest_timetoken :: "int option"
  api_ignoring_start :: bool

definition initial_locals :: "int option \<Rightarrow> locals" where
  "initial_locals start_timetoken =
     \<lparr>total_count = 0, current_start = start_timetoken, first_iteration = True,
      previous_oldest_timetoken = None, api_ignoring_start = False\<rparr>"

text \<open>Lines 150 to 164: the parameters of the next fetch.\<close>

definition build_params :: "string \<Rightarrow> int option \<Rightarrow> locals \<Rightarrow> fetch_params" where
  "build_params channel end_timetoken l =
     \<lparr>p_channels = [channel], p_count = 100,
      p_start = (if truthy (current_start l) then current_start l else None),
      p_end = (if truthy end_timetoken \<and>
                  \<not> (api_ignoring_start l \<and>
                     truthy_and end_timetoken (\<lambda>e. e > 18000000000000000))
               then end_timetoken else None),
      p_include_meta = False, p_include_uuid = False\<rparr>"

text \<open>
  Lines 184 to 203: what the first batch decides. \<open>Keep_paging b\<close> goes on with the batch,
  \<open>b\<close> being the new value of \<^verbatim>\<open>api_ignoring_start\<close>.
\<close>

datatype decision = Keep_paging bool | Full_scan | Bisection int

definition on_first_batch :: "int option \<Rightarrow> locals \<Rightarrow> message list \<Rightarrow> decision" where
  "on_first_batch end_timetoken l raw_messages =
     (if first_iteration l \<and> truthy (current_start l) \<and> length raw_messages > 0
      then
        (if truthy_and (current_start l) (\<lambda>c. c < oldest raw_messages - 10 ^ 14)
         then
           (case end_timetoken of
              None \<Rightarrow> Keep_paging True
            | Some e \<Rightarrow>
                if e \<noteq> 0
                then (if e > newest raw_messages + 10 ^ 15 then Full_scan else Bisection e)
                else Keep_paging True)
         else Keep_paging (api_ignoring_start l))
      else Keep_paging (api_ignoring_start l))"

text \<open>Lines 212 to 229: the filter. \<^verbatim>\<open>original_start\<close> is \<^verbatim>\<open>start_timetoken\<close> (line 131).\<close>

definition should_include :: "int option \<Rightarrow> int option \<Rightarrow> bool \<Rightarrow> message \<Rightarrow> bool" where
  "should_include start_timetoken end_timetoken ignoring msg =
     (let msg_timetoken = timetoken msg;
          original_start = start_timetoken;
          by_start = (if ignoring
                      then \<not> truthy_and original_start (\<lambda>s. msg_timetoken \<le> s)
                      else \<not> truthy_and start_timetoken (\<lambda>s. msg_timetoken \<le> s))
      in by_start \<and> \<not> truthy_and end_timetoken (\<lambda>e. msg_timetoken > e))"

datatype flow = Break | Continue

text \<open>
  Lines 205 to 326: one batch is filtered, added to the count, and the stop conditions
  are tried in the order of the source. The result is whether the loop goes on, the
  local variables, and the lines printed.
\<close>

definition process_batch ::
  "int option \<Rightarrow> int option \<Rightarrow> locals \<Rightarrow> message list \<Rightarrow> flow \<times> locals \<times> event list"
where
  "process_batch start_timetoken end_timetoken l raw_messages =
     (let raw_count = length raw_messages;
          filtered_messages =
            filter (should_include start_timetoken end_timetoken (api_ignoring_start l))
                   raw_messages;
          batch_count = length filtered_messages;
          l1 = l\<lparr>first_iteration := False, total_count := total_count l + batch_count\<rparr>;
          out = [Filtered_batch filtered_messages]
      in
      if raw_count > 0 \<and> truthy_and end_timetoken (\<lambda>e. newest raw_messages > e)
        then (Break, l1, out)
      else if raw_count > 0 \<and> truthy (current_start l) \<and>
              truthy_and end_timetoken (\<lambda>e. newest raw_messages \<ge> e)
        then (Break, l1, out)
      else if batch_count = 0 \<and> raw_count = 0 then (Break, l1, out)
      else if batch_count = 0 \<and> raw_count < 100 then (Break, l1, out)
      else if raw_count < 100 then (Break, l1, out)
      else if raw_count > 0 \<and> truthy_and end_timetoken (\<lambda>e. oldest raw_messages > e)
        then (Break, l1, out)
      else if api_ignoring_start l \<and> raw_count > 0 \<and>
              truthy_and end_timetoken (\<lambda>e. newest raw_messages > e \<and> batch_count = 0)
        then (Break, l1, out)
      else
        (let oldest_timetoken =
               (if filtered_messages \<noteq> [] then oldest filtered_messages
                else oldest raw_messages)
         in
         if truthy_and (previous_oldest_timetoken l) (\<lambda>p. oldest_timetoken \<ge> p)
           then (Break, l1, out)
         else
           (let l2 = l1\<lparr>previous_oldest_timetoken := Some oldest_timetoken,
                        current_start := Some oldest_timetoken\<rparr>;
                out2 = out @ [Next_cursor oldest_timetoken]
            in if truthy_and end_timetoken (\<lambda>e. oldest_timetoken > e)
               then (Break, l2, out2)
               else (Continue, l2, out2))))"

definition says :: "event list \<Rightarrow> 's world \<Rightarrow> 's world" where
  "says evs w = w\<lparr>console := console w @ evs\<rparr>"

text \<open>
  Lines 328 to 333: the line that the \<^verbatim>\<open>except\<close> clause catching the exception prints,
  \<^verbatim>\<open>PubNub error\<close> for a \<^verbatim>\<open>PubNubException\<close> and \<^verbatim>\<open>Unexpected error\<close> for any other.
\<close>

fun except_line :: "exn \<Rightarrow> event" where
  "except_line PubNubException = Pubnub_error"
| "except_line OtherException = Unexpected_error"

text \<open>
  The counter. The \<^verbatim>\<open>while True\<close> loop can go on for as long as the store keeps
  answering with full batches of ever older messages, so the model counts the
  iterations down from \<open>n\<close>; \<open>None\<close> is a run that needs more than \<open>n\<close> of them. The
  \<^verbatim>\<open>try\<close> block turns every exception into a \<^verbatim>\<open>break\<close>, also one that comes out of
  \<^verbatim>\<open>find_actual_start_near_end\<close>, which is called inside it (line 203).
\<close>

fun count_messages_in_channel ::
  "nat \<Rightarrow> 's sdk \<Rightarrow> string \<Rightarrow> int option \<Rightarrow> int option \<Rightarrow> 's world \<Rightarrow> (nat \<times> 's world) option"
and count_all_messages ::
  "nat \<Rightarrow> 's sdk \<Rightarrow> string \<Rightarrow> 's world \<Rightarrow> (nat \<times> 's world) option"
and while_true ::
  "nat \<Rightarrow> 's sdk \<Rightarrow> string \<Rightarrow> int option \<Rightarrow> int option \<Rightarrow> locals \<Rightarrow> 's world
     \<Rightarrow> (nat \<times> 's world) option"
where
  "count_messages_in_channel n sdk channel start_timetoken end_timetoken w =
     while_true n sdk channel start_timetoken end_timetoken
       (initial_locals start_timetoken) (say Count_started w)"
| "count_all_messages n sdk channel w =
     count_messages_in_channel n sdk channel None None (say Full_scan_started w)"
| "while_true 0 sdk channel start_timetoken end_timetoken l w = None"
| "while_true (Suc n) sdk channel start_timetoken end_timetoken l w =
     (case fetch_messages sdk (build_params channel end_timetoken l) w of
        (Raises x, w1) \<Rightarrow> Some (total_count l, say (except_line x) w1)
      | (Returns envelope, w1) \<Rightarrow>
          if status_is_error envelope then Some (total_count l, say Error_fetching w1)
          else
            (case map_of (result_channels envelope) channel of
               None \<Rightarrow> Some (total_count l, say No_messages_found w1)
             | Some raw_messages \<Rightarrow>
                 (case on_first_batch end_timetoken l raw_messages of
                    Full_scan \<Rightarrow>
                      count_all_messages n sdk channel (say Ignoring_start_detected w1)
                  | Bisection e \<Rightarrow>
                      (case find_actual_start_near_end sdk channel start_timetoken e
                              (say Ignoring_start_detected w1) of
                         (Inl x, w2) \<Rightarrow> Some (total_count l, say (except_line x) w2)
                       | (Inr count, w2) \<Rightarrow> Some (count, w2))
                  | Keep_paging ignoring \<Rightarrow>
                      (let w2 = (if ignoring \<and> \<not> api_ignoring_start l
                                 then say Ignoring_start_detected w1 else w1)
                       in case process_batch start_timetoken end_timetoken
                                 (l\<lparr>api_ignoring_start := ignoring\<rparr>) raw_messages of
                            (Break, l', out) \<Rightarrow> Some (total_count l', says out w2)
                          | (Continue, l', out) \<Rightarrow>
                              while_true n sdk channel start_timetoken end_timetoken l'
                                (says out w2)))))"

subsection \<open>\<^verbatim>\<open>main\<close>\<close>

record args =
  arg_publish_key :: string
  arg_subscribe_key :: string
  arg_channel :: string
  arg_start :: "int option"
  arg_end :: "int option"

text \<open>
  The result is the exit code. The validation of line 388 comes before the client is
  made; creating and stopping the client belong to the SDK and are not modelled.
\<close>

definition main :: "nat \<Rightarrow> 's sdk \<Rightarrow> args \<Rightarrow> 's world \<Rightarrow> (nat \<times> 's world) option" where
  "main n sdk a w =
     (if truthy_and (arg_start a) (\<lambda>s. truthy_and (arg_end a) (\<lambda>e. s \<ge> e))
      then Some (1, say Validation_error w)
      else
        (case count_messages_in_channel n sdk (arg_channel a) (arg_start a) (arg_end a) w of
           None \<Rightarrow> None
         | Some (message_count, w1) \<Rightarrow> Some (0, say (Total_message_count message_count) w1)))"

subsection \<open>Reading the console\<close>

text \<open>The messages that were added to a count, in the order in which they were added.\<close>

definition counted :: "event list \<Rightarrow> message list" where
  "counted evs = concat (map (\<lambda>ev. case ev of Filtered_batch ms \<Rightarrow> ms | _ \<Rightarrow> []) evs)"

text \<open>The cursors that the pagination loop took from its batches.\<close>

definition next_cursors :: "event list \<Rightarrow> int list" where
  "next_cursors evs = concat (map (\<lambda>ev. case ev of Next_cursor c \<Rightarrow> [c] | _ \<Rightarrow> []) evs)"

text \<open>The calls of the store, with their answers.\<close>

definition fetches :: "event list \<Rightarrow> (fetch_params \<times> fetched) list" where
  "fetches evs = concat (map (\<lambda>ev. case ev of Fetch p r \<Rightarrow> [(p, r)] | _ \<Rightarrow> []) evs)"

text \<open>How often one of the two heuristic sub-procedures was entered.\<close>

fun is_heuristic :: "event \<Rightarrow> bool" where
  "is_heuristic Full_scan_started = True"
| "is_heuristic Bisection_started = True"
| "is_heuristic ev = False"

definition heuristic_entries :: "event list \<Rightarrow> nat" where
  "heuristic_entries evs = length (filter is_heuristic evs)"

fun is_entry :: "event \<Rightarrow> bool" where
  "is_entry Count_started = True"
| "is_entry ev = False"

definition counter_entries :: "event list \<Rightarrow> nat" where
  "counter_entries evs = length (filter is_entry evs)"

fun is_detection :: "event \<Rightarrow> bool" where
  "is_detection Ignoring_start_detected = True"
| "is_detection ev = False"

definition detections :: "event list \<Rightarrow> nat" where
  "detections evs = length (filter is_detection evs)"

text \<open>A fetch that failed: an exception, or an envelope with an error status.\<close>

fun failed :: "fetched \<Rightarrow> bool" where
  "failed (Raises x) = True"
| "failed (Returns envelope) = status_is_error envelope"

subsection \<open>Stores for the examples\<close>

definition msg :: "int \<Rightarrow> message" where
  "msg t = \<lparr>timetoken = t, payload = []\<rparr>"

definition batch :: "string \<Rightarrow> int list \<Rightarrow> fetched" where
  "batch channel ts =
     Returns \<lparr>status_is_error = False, result_channels = [(channel, map msg ts)]\<rparr>"

definition store_error :: fetched where
  "store_error = Returns \<lparr>status_is_error = True, result_channels = []\<rparr>"

text \<open>
  A store that gives the answers of a list one after the other, whatever it is asked,
  and an envelope without channels once the list is used up.
\<close>

definition scripted :: "fetched list sdk" where
  "scripted p s =
     (case s of
        [] \<Rightarrow> (Returns \<lparr>status_is_error = False, result_channels = []\<rparr>, [])
      | r # rs \<Rightarrow> (r, rs))"

definition fresh :: "'s \<Rightarrow> 's world" where
  "fresh s = \<lparr>store = s, console = []\<rparr>"

subsection \<open>Notions for the proofs\<close>

text \<open>Two optional bounds that every test of the counter takes for the same.\<close>

definition same_bound :: "int option \<Rightarrow> int option \<Rightarrow> bool" where
  "same_bound x y = (x = y \<or> (\<not> truthy x \<and> \<not> truthy y))"

text \<open>
  The candidate for the next cursor (lines 299 to 302): the oldest token of the filtered
  messages if there are any, else of the raw batch.
\<close>

definition cursor_candidate :: "int option \<Rightarrow> int option \<Rightarrow> locals \<Rightarrow> message list \<Rightarrow> int" where
  "cursor_candidate s e l raw =
     (if filter (should_include s e (api_ignoring_start l)) raw \<noteq> []
      then oldest (filter (should_include s e (api_ignoring_start l)) raw)
      else oldest raw)"

text \<open>The stop conditions of lines 254 to 296, which come before a cursor is taken.\<close>

definition stops_early :: "int option \<Rightarrow> int option \<Rightarrow> locals \<Rightarrow> message list \<Rightarrow> bool" where
  "stops_early s e l raw =
     ((raw \<noteq> [] \<and> truthy_and e (\<lambda>b. newest raw > b)) \<or>
      (raw \<noteq> [] \<and> truthy (current_start l) \<and> truthy_and e (\<lambda>b. newest raw \<ge> b)) \<or>
      length raw < 100 \<or>
      (raw \<noteq> [] \<and> truthy_and e (\<lambda>b. oldest raw > b)) \<or>
      (api_ignoring_start l \<and> raw \<noteq> [] \<and>
       truthy_and e (\<lambda>b. newest raw > b \<and>
         filter (should_include s e (api_ignoring_start l)) raw = [])))"

text \<open>
  An answer on which the backward search moves on to the next width: an error status,
  no entry for the channel, or an empty batch.
\<close>

definition barren :: "string \<Rightarrow> fetched \<Rightarrow> bool" where
  "barren channel r =
     (case r of
        Raises x \<Rightarrow> False
      | Returns env \<Rightarrow>
          status_is_error env \<or>
          (case map_of (result_channels env) channel of None \<Rightarrow> True | Some raw \<Rightarrow> raw = []))"

text \<open>
  What the last answer of a backward search makes of it: the result and the line printed
  after the fetch. A barren last answer means that all widths were tried.
\<close>

definition verdict :: "string \<Rightarrow> int \<Rightarrow> int \<Rightarrow> fetched \<Rightarrow> (exn + nat) \<times> event list" where
  "verdict channel os e r =
     (if barren channel r then (Inr 0, [])
      else
        (case r of
           Raises x \<Rightarrow> (Inl x, [])
         | Returns env \<Rightarrow>
             (case map_of (result_channels env) channel of
                None \<Rightarrow> (Inr 0, [])
              | Some raw \<Rightarrow>
                  (Inr (length [m\<leftarrow>raw. os < timetoken m \<and> timetoken m \<le> e]),
                   [Filtered_batch [m\<leftarrow>raw. os < timetoken m \<and> timetoken m \<le> e]]))))"

section \<open>Properties\<close>

subsection \<open>The console and the parts of the loop\<close>

lemma console_say [simp]: "console (say ev w) = console w @ [ev]"
  and store_say [simp]: "store (say ev w) = store w"
  by (simp_all add: say_def)

lemma console_says [simp]: "console (says evs w) = console w @ evs"
  and store_says [simp]: "store (says evs w) = store w"
  by (simp_all add: says_def)

lemma counted_append [simp]: "counted (xs @ ys) = counted xs @ counted ys"
  by (simp add: counted_def)

lemma next_cursors_append [simp]: "next_cursors (xs @ ys) = next_cursors xs @ next_cursors ys"
  by (simp add: next_cursors_def)

lemma fetches_append [simp]: "fetches (xs @ ys) = fetches xs @ fetches ys"
  by (simp add: fetches_def)

lemma heuristic_entries_append [simp]:
  "heuristic_entries (xs @ ys) = heuristic_entries xs + heuristic_entries ys"
  by (simp add: heuristic_entries_def)

lemma counter_entries_append [simp]:
  "counter_entries (xs @ ys) = counter_entries xs + counter_entries ys"
  by (simp add: counter_entries_def)

lemma detections_append [simp]: "detections (xs @ ys) = detections xs + detections ys"
  by (simp add: detections_def)

lemma fetch_messagesD:
  assumes "fetch_messages sdk p w = (r, w1)"
  shows "console w1 = console w @ [Fetch p r]" and "sdk p (store w) = (r, store w1)"
  using assms by (auto simp: fetch_messages_def split: prod.splits)

text \<open>One iteration of the loop that ends in a result, case by case.\<close>

lemma while_true_Suc_cases [consumes 1, case_names raised error missing full_scan
    bisection_raised bisection stop continue]:
  assumes run: "while_true (Suc n) sdk channel s e l w = Some (c, w')"
  obtains
    x w1 where "fetch_messages sdk (build_params channel e l) w = (Raises x, w1)"
      "c = total_count l"
      "w' = say (except_line x) w1"
  | env w1 where "fetch_messages sdk (build_params channel e l) w = (Returns env, w1)"
      "status_is_error env" "c = total_count l" "w' = say Error_fetching w1"
  | env w1 where "fetch_messages sdk (build_params channel e l) w = (Returns env, w1)"
      "\<not> status_is_error env" "map_of (result_channels env) channel = None"
      "c = total_count l" "w' = say No_messages_found w1"
  | env w1 raw where "fetch_messages sdk (build_params channel e l) w = (Returns env, w1)"
      "\<not> status_is_error env" "map_of (result_channels env) channel = Some raw"
      "on_first_batch e l raw = Full_scan"
      "count_all_messages n sdk channel (say Ignoring_start_detected w1) = Some (c, w')"
  | env w1 raw b x w2 where
      "fetch_messages sdk (build_params channel e l) w = (Returns env, w1)"
      "\<not> status_is_error env" "map_of (result_channels env) channel = Some raw"
      "on_first_batch e l raw = Bisection b"
      "find_actual_start_near_end sdk channel s b (say Ignoring_start_detected w1) = (Inl x, w2)"
      "c = total_count l" "w' = say (except_line x) w2"
  | env w1 raw b where
      "fetch_messages sdk (build_params channel e l) w = (Returns env, w1)"
      "\<not> status_is_error env" "map_of (result_channels env) channel = Some raw"
      "on_first_batch e l raw = Bisection b"
      "find_actual_start_near_end sdk channel s b (say Ignoring_start_detected w1) = (Inr c, w')"
  | env w1 raw ignoring l' out where
      "fetch_messages sdk (build_params channel e l) w = (Returns env, w1)"
      "\<not> status_is_error env" "map_of (result_channels env) channel = Some raw"
      "on_first_batch e l raw = Keep_paging ignoring"
      "process_batch s e (l\<lparr>api_ignoring_start := ignoring\<rparr>) raw = (Break, l', out)"
      "c = total_count l'"
      "w' = says out (if ignoring \<and> \<not> api_ignoring_start l
                      then say Ignoring_start_detected w1 else w1)"
  | env w1 raw ignoring l' out where
      "fetch_messages sdk (build_params channel e l) w = (Returns env, w1)"
      "\<not> status_is_error env" "map_of (result_channels env) channel = Some raw"
      "on_first_batch e l raw = Keep_paging ignoring"
      "process_batch s e (l\<lparr>api_ignoring_start := ignoring\<rparr>) raw = (Continue, l', out)"
      "while_true n sdk channel s e l'
         (says out (if ignoring \<and> \<not> api_ignoring_start l
                    then say Ignoring_start_detected w1 else w1)) = Some (c, w')"
  using run
  by (simp only: while_true.simps Let_def split: prod.splits fetched.splits if_splits
        option.splits decision.splits sum.splits flow.splits) auto

lemma counted_Nil [simp]: "counted [] = []"
  and counted_Cons [simp]:
    "counted (ev # evs) = (case ev of Filtered_batch ms \<Rightarrow> ms | _ \<Rightarrow> []) @ counted evs"
  by (simp_all add: counted_def)

lemma next_cursors_Nil [simp]: "next_cursors [] = []"
  and next_cursors_Cons [simp]:
    "next_cursors (ev # evs) = (case ev of Next_cursor c \<Rightarrow> [c] | _ \<Rightarrow> []) @ next_cursors evs"
  by (simp_all add: next_cursors_def)

lemma fetches_Nil [simp]: "fetches [] = []"
  and fetches_Cons [simp]:
    "fetches (ev # evs) = (case ev of Fetch p r \<Rightarrow> [(p, r)] | _ \<Rightarrow> []) @ fetches evs"
  by (simp_all add: fetches_def)

lemma heuristic_entries_Nil [simp]: "heuristic_entries [] = 0"
  and heuristic_entries_Cons [simp]:
    "heuristic_entries (ev # evs) = (if is_heuristic ev then 1 else 0) + heuristic_entries evs"
  by (simp_all add: heuristic_entries_def)

lemma counter_entries_Nil [simp]: "counter_entries [] = 0"
  and counter_entries_Cons [simp]:
    "counter_entries (ev # evs) = (if is_entry ev then 1 else 0) + counter_entries evs"
  by (simp_all add: counter_entries_def)

lemma detections_Nil [simp]: "detections [] = 0"
  and detections_Cons [simp]:
    "detections (ev # evs) = (if is_detection ev then 1 else 0) + detections evs"
  by (simp_all add: detections_def)

lemma except_line_quiet [simp]:
  "\<not> is_heuristic (except_line x)" "\<not> is_entry (except_line x)"
  "\<not> is_detection (except_line x)"
  "(case except_line x of Filtered_batch ms \<Rightarrow> ms | _ \<Rightarrow> []) = []"
  "(case except_line x of Next_cursor c \<Rightarrow> [c] | _ \<Rightarrow> []) = []"
  "(case except_line x of Fetch p r \<Rightarrow> [(p, r)] | _ \<Rightarrow> []) = []"
  "except_line x \<noteq> Full_scan_started" "except_line x \<noteq> Ignoring_start_detected"
  by (cases x; simp)+

text \<open>What one batch does, in two cases: the loop stops before a cursor is taken, or a cursor is taken.\<close>

lemma process_batch_cases [consumes 1, case_names stop cursor]:
  assumes "process_batch s e l raw = (f, l', out)"
  obtains
    "f = Break"
    "out = [Filtered_batch (filter (should_include s e (api_ignoring_start l)) raw)]"
    "l' = l\<lparr>first_iteration := False,
            total_count := total_count l +
              length (filter (should_include s e (api_ignoring_start l)) raw)\<rparr>"
  | c where
    "out = [Filtered_batch (filter (should_include s e (api_ignoring_start l)) raw),
            Next_cursor c]"
    "l' = l\<lparr>first_iteration := False,
            total_count := total_count l +
              length (filter (should_include s e (api_ignoring_start l)) raw),
            previous_oldest_timetoken := Some c, current_start := Some c\<rparr>"
    "\<not> truthy_and (previous_oldest_timetoken l) (\<lambda>p. c \<ge> p)"
    "f = (if truthy_and e (\<lambda>e. c > e) then Break else Continue)"
    "100 \<le> length raw"
    "c = (if filter (should_include s e (api_ignoring_start l)) raw \<noteq> []
          then oldest (filter (should_include s e (api_ignoring_start l)) raw)
          else oldest raw)"
  using assms unfolding process_batch_def Let_def
  by (simp split: if_splits)

lemma process_batch_facts:
  assumes "process_batch s e l raw = (f, l', out)"
  shows "counted out = filter (should_include s e (api_ignoring_start l)) raw"
    and "total_count l' = total_count l + length (counted out)"
    and "\<not> first_iteration l'"
    and "heuristic_entries out = 0" and "detections out = 0" and "counter_entries out = 0"
    and "fetches out = []"
  using assms
  by (cases rule: process_batch_cases; simp)+

lemma on_first_batch_Full_scan:
  "on_first_batch e l raw = Full_scan \<Longrightarrow>
     first_iteration l \<and> truthy (current_start l) \<and> truthy e"
  by (auto simp: on_first_batch_def truthy_def split: if_splits option.splits)

lemma on_first_batch_Bisection:
  "on_first_batch e l raw = Bisection b \<Longrightarrow>
     first_iteration l \<and> truthy (current_start l) \<and> e = Some b \<and> b \<noteq> 0"
  by (auto simp: on_first_batch_def truthy_def split: if_splits option.splits)

lemma on_first_batch_Keep_paging:
  "on_first_batch e l raw = Keep_paging g \<Longrightarrow>
     g = api_ignoring_start l \<or> (g \<and> first_iteration l \<and> truthy (current_start l))"
  by (auto simp: on_first_batch_def truthy_def split: if_splits option.splits)

text \<open>One width of the backward search, case by case.\<close>

lemma search_loop_Cons_cases [consumes 1, case_names no_start raised error missing empty found]:
  assumes run: "search_loop sdk channel os e (range_size # rest) w = (r, w')"
  obtains
    "os = None" "r = Inl OtherException" "w' = w"
  | a x w1 where "os = Some a"
      "fetch_messages sdk (search_params channel a e range_size) w = (Raises x, w1)"
      "r = Inl x" "w' = w1"
  | a env w1 where "os = Some a"
      "fetch_messages sdk (search_params channel a e range_size) w = (Returns env, w1)"
      "status_is_error env" "search_loop sdk channel os e rest w1 = (r, w')"
  | a env w1 where "os = Some a"
      "fetch_messages sdk (search_params channel a e range_size) w = (Returns env, w1)"
      "\<not> status_is_error env" "map_of (result_channels env) channel = None"
      "search_loop sdk channel os e rest w1 = (r, w')"
  | a env w1 where "os = Some a"
      "fetch_messages sdk (search_params channel a e range_size) w = (Returns env, w1)"
      "\<not> status_is_error env" "map_of (result_channels env) channel = Some []"
      "search_loop sdk channel os e rest w1 = (r, w')"
  | a env w1 raw where "os = Some a"
      "fetch_messages sdk (search_params channel a e range_size) w = (Returns env, w1)"
      "\<not> status_is_error env" "map_of (result_channels env) channel = Some raw" "raw \<noteq> []"
      "r = Inr (length [m\<leftarrow>raw. a < timetoken m \<and> timetoken m \<le> e])"
      "w' = say (Filtered_batch [m\<leftarrow>raw. a < timetoken m \<and> timetoken m \<le> e]) w1"
  using run
  by (simp only: search_loop.simps Let_def split: prod.splits fetched.splits if_splits
        option.splits) auto

text \<open>What the backward search prints, and that its result is the number it reports.\<close>

lemma search_loop_console:
  assumes "search_loop sdk channel os e ranges w = (r, w')"
  shows "\<exists>evs. console w' = console w @ evs \<and> heuristic_entries evs = 0 \<and>
           detections evs = 0 \<and> counter_entries evs = 0 \<and> next_cursors evs = [] \<and>
           (\<forall>m \<in> set (counted evs). (\<exists>a. os = Some a \<and> a < timetoken m) \<and> timetoken m \<le> e) \<and>
           (case r of Inr c \<Rightarrow> c = length (counted evs) | Inl x \<Rightarrow> counted evs = [])"
  using assms
proof (induction ranges arbitrary: w)
  case Nil
  then have "r = Inr 0" "w' = w" by auto
  then show ?case by (intro exI[of _ "[]"]) simp
next
  case (Cons range_size rest)
  let ?P = "\<lambda>w0 evs. console w' = console w0 @ evs \<and> heuristic_entries evs = 0 \<and>
           detections evs = 0 \<and> counter_entries evs = 0 \<and> next_cursors evs = [] \<and>
           (\<forall>m \<in> set (counted evs). (\<exists>a. os = Some a \<and> a < timetoken m) \<and> timetoken m \<le> e) \<and>
           (case r of Inr c \<Rightarrow> c = length (counted evs) | Inl x \<Rightarrow> counted evs = [])"
  have again: "\<exists>evs. ?P w evs"
    if f: "fetch_messages sdk p w = (x, w1)" and rec: "search_loop sdk channel os e rest w1 = (r, w')"
    for p x w1
  proof -
    from Cons.IH[OF rec] obtain evs where evs: "?P w1 evs" by blast
    have "?P w (Fetch p x # evs)"
      using evs fetch_messagesD(1)[OF f] by (simp split: sum.splits)
    then show ?thesis by blast
  qed
  from Cons.prems show ?case
  proof (cases rule: search_loop_Cons_cases)
    case no_start
    then show ?thesis by (intro exI[of _ "[]"]) simp
  next
    case (raised a x w1)
    then show ?thesis
      using fetch_messagesD(1)[OF raised(2)]
      by (intro exI[of _ "[Fetch (search_params channel a e range_size) (Raises x)]"]) simp
  next
    case (error a env w1)
    then show ?thesis using again by blast
  next
    case (missing a env w1)
    then show ?thesis using again by blast
  next
    case (empty a env w1)
    then show ?thesis using again by blast
  next
    case (found a env w1 raw)
    then show ?thesis
      using fetch_messagesD(1)[OF found(2)]
      by (intro exI[of _ "[Fetch (search_params channel a e range_size) (Returns env),
               Filtered_batch [m\<leftarrow>raw. a < timetoken m \<and> timetoken m \<le> e]]"]) simp
  qed
qed

lemma find_actual_start_near_end_console:
  assumes "find_actual_start_near_end sdk channel os e w = (r, w')"
  shows "\<exists>evs. console w' = console w @ Bisection_started # evs \<and> heuristic_entries evs = 0 \<and>
           detections evs = 0 \<and> counter_entries evs = 0 \<and> next_cursors evs = [] \<and>
           (\<forall>m \<in> set (counted evs). (\<exists>a. os = Some a \<and> a < timetoken m) \<and> timetoken m \<le> e) \<and>
           (case r of Inr c \<Rightarrow> c = length (counted evs) | Inl x \<Rightarrow> counted evs = [])"
proof -
  from search_loop_console[OF assms[unfolded find_actual_start_near_end_def]]
  obtain evs where "console w' = console (say Bisection_started w) @ evs"
    and rest: "heuristic_entries evs = 0" "detections evs = 0" "counter_entries evs = 0"
      "next_cursors evs = []"
      "\<forall>m \<in> set (counted evs). (\<exists>a. os = Some a \<and> a < timetoken m) \<and> timetoken m \<le> e"
      "case r of Inr c \<Rightarrow> c = length (counted evs) | Inl x \<Rightarrow> counted evs = []"
    by blast
  then have "console w' = console w @ Bisection_started # evs" by simp
  with rest show ?thesis by blast
qed

text \<open>After the first iteration, or without a start cursor, the loop only pages.\<close>

lemma while_true_paging:
  assumes "while_true n sdk channel s e l w = Some (c, w')"
    and "\<not> first_iteration l \<or> \<not> truthy (current_start l)"
  shows "\<exists>evs. console w' = console w @ evs \<and> heuristic_entries evs = 0 \<and>
           detections evs = 0 \<and> counter_entries evs = 0"
  using assms
proof (induction n arbitrary: l w)
  case 0
  then show ?case by simp
next
  case (Suc n)
  from Suc.prems(1) show ?case
  proof (cases rule: while_true_Suc_cases)
    case (raised x w1)
    then show ?thesis
      using fetch_messagesD(1)[OF raised(1)] by (cases x) simp_all
  next
    case (error env w1)
    then show ?thesis using fetch_messagesD(1)[OF error(1)] by simp
  next
    case (missing env w1)
    then show ?thesis using fetch_messagesD(1)[OF missing(1)] by simp
  next
    case (full_scan env w1 raw)
    then show ?thesis using Suc.prems(2) on_first_batch_Full_scan by blast
  next
    case (bisection_raised env w1 raw b x w2)
    then show ?thesis using Suc.prems(2) on_first_batch_Bisection by blast
  next
    case (bisection env w1 raw b)
    then show ?thesis using Suc.prems(2) on_first_batch_Bisection by blast
  next
    case (stop env w1 raw ignoring l' out)
    from on_first_batch_Keep_paging[OF stop(4)] Suc.prems(2)
    have ig: "ignoring = api_ignoring_start l" by blast
    show ?thesis
      using stop(7) ig fetch_messagesD(1)[OF stop(1)] process_batch_facts(4,5,6)[OF stop(5)]
      by simp
  next
    case (continue env w1 raw ignoring l' out)
    from on_first_batch_Keep_paging[OF continue(4)] Suc.prems(2)
    have ig: "ignoring = api_ignoring_start l" by blast
    from Suc.IH[OF continue(6)] process_batch_facts(3)[OF continue(5)]
    obtain evs where evs: "console w' = console (says out w1) @ evs"
      "heuristic_entries evs = 0" "detections evs = 0" "counter_entries evs = 0"
      using ig by auto
    show ?thesis
      using evs fetch_messagesD(1)[OF continue(1)] process_batch_facts(4,5,6)[OF continue(5)]
      by simp
  qed
qed

lemma count_all_messages_console:
  assumes "count_all_messages n sdk channel w = Some (c, w')"
  shows "\<exists>evs. console w' = console w @ Full_scan_started # Count_started # evs \<and>
           heuristic_entries evs = 0 \<and> detections evs = 0 \<and> counter_entries evs = 0"
proof -
  from assms have "while_true n sdk channel None None (initial_locals None)
      (say Count_started (say Full_scan_started w)) = Some (c, w')"
    by simp
  from while_true_paging[OF this]
  show ?thesis by (simp add: initial_locals_def truthy_def)
qed

text \<open>Any run of the loop: at most one sub-procedure, one detection, one nested count.\<close>

lemma while_true_console:
  assumes "while_true n sdk channel s e l w = Some (c, w')"
  shows "\<exists>evs. console w' = console w @ evs \<and> heuristic_entries evs \<le> 1 \<and>
           detections evs \<le> 1 \<and> counter_entries evs \<le> 1"
proof (cases n)
  case 0
  with assms show ?thesis by simp
next
  case (Suc k)
  from assms[unfolded Suc] show ?thesis
  proof (cases rule: while_true_Suc_cases)
    case (raised x w1)
    then show ?thesis
      using fetch_messagesD(1)[OF raised(1)] by (cases x) simp_all
  next
    case (error env w1)
    then show ?thesis using fetch_messagesD(1)[OF error(1)] by simp
  next
    case (missing env w1)
    then show ?thesis using fetch_messagesD(1)[OF missing(1)] by simp
  next
    case (full_scan env w1 raw)
    from count_all_messages_console[OF full_scan(5)]
    show ?thesis using fetch_messagesD(1)[OF full_scan(1)] by auto
  next
    case (bisection_raised env w1 raw b x w2)
    from find_actual_start_near_end_console[OF bisection_raised(5)]
    show ?thesis using bisection_raised(7) fetch_messagesD(1)[OF bisection_raised(1)] by auto
  next
    case (bisection env w1 raw b)
    from find_actual_start_near_end_console[OF bisection(5)]
    show ?thesis using fetch_messagesD(1)[OF bisection(1)] by auto
  next
    case (stop env w1 raw ignoring l' out)
    show ?thesis
      using stop(7) fetch_messagesD(1)[OF stop(1)] process_batch_facts(4,5,6)[OF stop(5)]
      by simp
  next
    case (continue env w1 raw ignoring l' out)
    from while_true_paging[OF continue(6)] process_batch_facts(3)[OF continue(5)]
    obtain evs where evs: "console w' = console (says out (if ignoring \<and> \<not> api_ignoring_start l
                    then say Ignoring_start_detected w1 else w1)) @ evs"
      "heuristic_entries evs = 0" "detections evs = 0" "counter_entries evs = 0"
      by auto
    show ?thesis
      using evs fetch_messagesD(1)[OF continue(1)] process_batch_facts(4,5,6)[OF continue(5)]
      by simp
  qed
qed

text \<open>The number returned is the number of messages reported as counted.\<close>

lemma while_true_total:
  assumes "while_true n sdk channel s e l w = Some (c, w')"
    and "first_iteration l \<longrightarrow> total_count l = 0"
  shows "c + length (counted (console w)) = total_count l + length (counted (console w'))"
  using assms
proof (induction n arbitrary: s e l w)
  case 0
  then show ?case by simp
next
  case (Suc n)
  from Suc.prems(1) show ?case
  proof (cases rule: while_true_Suc_cases)
    case (raised x w1)
    then show ?thesis
      using fetch_messagesD(1)[OF raised(1)] by (cases x) simp_all
  next
    case (error env w1)
    then show ?thesis using fetch_messagesD(1)[OF error(1)] by simp
  next
    case (missing env w1)
    then show ?thesis using fetch_messagesD(1)[OF missing(1)] by simp
  next
    case (full_scan env w1 raw)
    from full_scan(5) have run: "while_true n sdk channel None None (initial_locals None)
        (say Count_started (say Full_scan_started (say Ignoring_start_detected w1))) = Some (c, w')"
      by simp
    have zero: "total_count l = 0"
      using on_first_batch_Full_scan[OF full_scan(4)] Suc.prems(2) by blast
    from Suc.IH[OF run] show ?thesis
      using zero fetch_messagesD(1)[OF full_scan(1)] by (simp add: initial_locals_def)
  next
    case (bisection_raised env w1 raw b x w2)
    from find_actual_start_near_end_console[OF bisection_raised(5)]
    show ?thesis
      using bisection_raised(6,7) fetch_messagesD(1)[OF bisection_raised(1)] by auto
  next
    case (bisection env w1 raw b)
    have zero: "total_count l = 0"
      using on_first_batch_Bisection[OF bisection(4)] Suc.prems(2) by blast
    from find_actual_start_near_end_console[OF bisection(5)]
    show ?thesis
      using zero fetch_messagesD(1)[OF bisection(1)] by auto
  next
    case (stop env w1 raw ignoring l' out)
    show ?thesis
      using stop(6,7) fetch_messagesD(1)[OF stop(1)] process_batch_facts(2)[OF stop(5)]
      by (simp split: if_splits)
  next
    case (continue env w1 raw ignoring l' out)
    from Suc.IH[OF continue(6)] process_batch_facts(3)[OF continue(5)]
    have "c + length (counted (console (says out (if ignoring \<and> \<not> api_ignoring_start l
                    then say Ignoring_start_detected w1 else w1)))) =
          total_count l' + length (counted (console w'))"
      by simp
    then show ?thesis
      using fetch_messagesD(1)[OF continue(1)] process_batch_facts(2)[OF continue(5)]
      by (simp split: if_splits)
  qed
qed

lemma count_messages_in_channel_total:
  assumes "count_messages_in_channel n sdk channel s e w = Some (c, w')"
  shows "c + length (counted (console w)) = length (counted (console w'))"
proof -
  from assms have "while_true n sdk channel s e (initial_locals s) (say Count_started w)
      = Some (c, w')"
    by simp
  from while_true_total[OF this] show ?thesis by (simp add: initial_locals_def)
qed


lemma should_include_start:
  "should_include (Some s) e g m \<Longrightarrow> s \<noteq> 0 \<Longrightarrow> s < timetoken m"
  by (simp add: should_include_def truthy_and_def Let_def split: if_splits)


text \<open>With a start bound and no detection, only messages after the start are counted.\<close>

lemma while_true_start_bound:
  assumes "while_true n sdk channel (Some s) e l w = Some (c, w')"
    and "s \<noteq> 0" and "Ignoring_start_detected \<notin> set (console w')"
  shows "\<forall>m \<in> set (counted (console w')). m \<in> set (counted (console w)) \<or> s < timetoken m"
  using assms
proof (induction n arbitrary: l w)
  case 0
  then show ?case by simp
next
  case (Suc n)
  from Suc.prems(1) show ?case
  proof (cases rule: while_true_Suc_cases)
    case (raised x w1)
    then show ?thesis
      using fetch_messagesD(1)[OF raised(1)] by (cases x) simp_all
  next
    case (error env w1)
    then show ?thesis using fetch_messagesD(1)[OF error(1)] by simp
  next
    case (missing env w1)
    then show ?thesis using fetch_messagesD(1)[OF missing(1)] by simp
  next
    case (full_scan env w1 raw)
    from count_all_messages_console[OF full_scan(5)] Suc.prems(3)
    show ?thesis by auto
  next
    case (bisection_raised env w1 raw b x w2)
    from find_actual_start_near_end_console[OF bisection_raised(5)] Suc.prems(3)
    show ?thesis
      using bisection_raised(7) by auto
  next
    case (bisection env w1 raw b)
    from find_actual_start_near_end_console[OF bisection(5)] Suc.prems(3)
    show ?thesis by auto
  next
    case (stop env w1 raw ignoring l' out)
    have "\<forall>m \<in> set (counted out). s < timetoken m"
      using process_batch_facts(1)[OF stop(5)] should_include_start[OF _ Suc.prems(2)] by auto
    then show ?thesis
      using stop(7) fetch_messagesD(1)[OF stop(1)] by (auto split: if_splits)
  next
    case (continue env w1 raw ignoring l' out)
    have out: "\<forall>m \<in> set (counted out). s < timetoken m"
      using process_batch_facts(1)[OF continue(5)] should_include_start[OF _ Suc.prems(2)] by auto
    from Suc.IH[OF continue(6) Suc.prems(2,3)]
    show ?thesis
      using out fetch_messagesD(1)[OF continue(1)] by (auto split: if_splits)
  qed
qed

lemma process_batch_eq:
  "process_batch s e l raw =
     (let filtered = filter (should_include s e (api_ignoring_start l)) raw;
          l1 = l\<lparr>first_iteration := False, total_count := total_count l + length filtered\<rparr>;
          c = cursor_candidate s e l raw
      in if stops_early s e l raw \<or> truthy_and (previous_oldest_timetoken l) (\<lambda>p. c \<ge> p)
         then (Break, l1, [Filtered_batch filtered])
         else (if truthy_and e (\<lambda>e. c > e) then Break else Continue,
               l1\<lparr>previous_oldest_timetoken := Some c, current_start := Some c\<rparr>,
               [Filtered_batch filtered, Next_cursor c]))"
  by (auto simp: process_batch_def stops_early_def cursor_candidate_def Let_def)

lemma same_bound_truthy: "same_bound x y \<Longrightarrow> truthy x = truthy y"
  by (auto simp: same_bound_def)

lemma same_bound_truthy_and: "same_bound x y \<Longrightarrow> truthy_and x P = truthy_and y P"
  by (auto simp: same_bound_def truthy_def truthy_and_def split: option.splits)

lemma same_bound_zero [simp]: "same_bound (Some 0) None" "same_bound x x"
  by (simp_all add: same_bound_def truthy_def)

lemma should_include_same:
  assumes "same_bound s s'" and "same_bound e e'"
  shows "should_include s e g = should_include s' e' g"
  by (rule ext)
     (simp add: should_include_def Let_def same_bound_truthy_and[OF assms(1)]
        same_bound_truthy_and[OF assms(2)])

lemma build_params_same:
  assumes "same_bound e e'" and "same_bound (current_start l) c'"
  shows "build_params channel e l = build_params channel e' (l\<lparr>current_start := c'\<rparr>)"
  using assms
  by (auto simp: build_params_def same_bound_def truthy_def truthy_and_def split: option.splits)

lemma on_first_batch_same:
  assumes "same_bound e e'" and "same_bound (current_start l) c'"
  shows "on_first_batch e l raw = on_first_batch e' (l\<lparr>current_start := c'\<rparr>) raw"
  using assms
  by (auto simp: on_first_batch_def same_bound_def truthy_def truthy_and_def
        split: option.splits)

lemma process_batch_same:
  assumes "same_bound s s'" and "same_bound e e'" and "same_bound (current_start l) c'"
    and "process_batch s e l raw = (f, m, out)"
  shows "process_batch s' e' (l\<lparr>current_start := c'\<rparr>) raw =
           (f, m\<lparr>current_start := (if next_cursors out = [] then c' else current_start m)\<rparr>, out)"
proof -
  have t: "truthy c' = truthy (current_start l)"
    using same_bound_truthy[OF assms(3)] by simp
  have ta: "truthy_and e' P = truthy_and e P" for P
    using same_bound_truthy_and[OF assms(2)] by simp
  have si: "should_include s' e' g = should_include s e g" for g
    using should_include_same[OF assms(1,2)] by simp
  have se: "stops_early s' e' (l\<lparr>current_start := c'\<rparr>) raw = stops_early s e l raw"
    by (simp add: stops_early_def t ta si)
  have cc: "cursor_candidate s' e' (l\<lparr>current_start := c'\<rparr>) raw = cursor_candidate s e l raw"
    by (simp add: cursor_candidate_def si)
  show ?thesis
    using assms(4)
    by (auto simp: process_batch_eq[of s e] process_batch_eq[of s' e'] se cc si ta Let_def
          split: if_splits)
qed

text \<open>Bounds that test alike give the same run.\<close>

lemma while_true_same_bounds:
  assumes "same_bound s s'" and "same_bound e e'" and "same_bound (current_start l) c'"
    and "first_iteration l \<and> truthy (current_start l) \<longrightarrow> s = s'"
  shows "while_true n sdk channel s e l w =
         while_true n sdk channel s' e' (l\<lparr>current_start := c'\<rparr>) w"
  using assms(3,4)
proof (induction n arbitrary: l c' w)
  case 0
  show ?case by simp
next
  case (Suc n)
  let ?l' = "l\<lparr>current_start := c'\<rparr>"
  have bp: "build_params channel e' ?l' = build_params channel e l"
    using build_params_same[OF assms(2) Suc.prems(1)] by simp
  obtain r w1 where f: "fetch_messages sdk (build_params channel e l) w = (r, w1)"
    by (cases "fetch_messages sdk (build_params channel e l) w")
  show ?case
  proof (cases r)
    case (Raises x)
    then show ?thesis using f by (simp add: bp)
  next
    case (Returns env)
    show ?thesis
    proof (cases "status_is_error env")
      case True
      then show ?thesis using f Returns by (simp add: bp)
    next
      case False
      show ?thesis
      proof (cases "map_of (result_channels env) channel")
        case None
        then show ?thesis using f Returns False by (simp add: bp)
      next
        case (Some raw)
        have ofb: "on_first_batch e' ?l' raw = on_first_batch e l raw"
          using on_first_batch_same[OF assms(2) Suc.prems(1)] by simp
        show ?thesis
        proof (cases "on_first_batch e l raw")
          case Full_scan
          then show ?thesis using f Returns False Some ofb by (simp add: bp)
        next
          case (Bisection b)
          have "s = s'" using on_first_batch_Bisection[OF Bisection] Suc.prems(2) by blast
          then show ?thesis using Bisection f Returns False Some ofb
            by (simp add: bp split: prod.splits sum.splits)
        next
          case (Keep_paging g)
          obtain fl m out where
            pb: "process_batch s e (l\<lparr>api_ignoring_start := g\<rparr>) raw = (fl, m, out)"
            by (cases "process_batch s e (l\<lparr>api_ignoring_start := g\<rparr>) raw")
          have sb: "same_bound (current_start (l\<lparr>api_ignoring_start := g\<rparr>)) c'"
            using Suc.prems(1) by simp
          have sw: "l\<lparr>current_start := c', api_ignoring_start := g\<rparr> =
              l\<lparr>api_ignoring_start := g, current_start := c'\<rparr>"
            by simp
          have pb': "process_batch s' e' (l\<lparr>current_start := c', api_ignoring_start := g\<rparr>) raw =
              (fl, m\<lparr>current_start := (if next_cursors out = [] then c' else current_start m)\<rparr>,
               out)"
            unfolding sw using process_batch_same[OF assms(1,2) sb pb] .
          show ?thesis
          proof (cases fl)
            case Break
            then show ?thesis
              using Keep_paging f Returns False Some ofb pb pb' by (simp add: bp)
          next
            case Continue
            have nc: "next_cursors out \<noteq> []"
              using pb Continue by (cases rule: process_batch_cases) simp_all
            have nf: "\<not> first_iteration m" using process_batch_facts(3)[OF pb] .
            have "while_true n sdk channel s e m w2 =
                  while_true n sdk channel s' e' (m\<lparr>current_start := current_start m\<rparr>) w2"
              for w2
              using Suc.IH[of m "current_start m" w2] nf by simp
            then show ?thesis
              using Continue nc Keep_paging f Returns False Some ofb pb pb' by (simp add: bp)
          qed
        qed
      qed
    qed
  qed
qed

lemma search_params_max:
  "search_params channel os e =
     (\<lambda>W. \<lparr>p_channels = [channel], p_count = 100, p_start = Some (max (e - W) os),
           p_end = Some e, p_include_meta = False, p_include_uuid = False\<rparr>)"
  by (rule ext) (simp add: search_params_def Let_def max_def)

text \<open>
  The fetches of a backward search: one for each width, in the order of the list, up to
  the first answer that is not barren.
\<close>

lemma search_loop_trace:
  assumes "search_loop sdk channel (Some os) e ranges w = (r, w')" and "ranges \<noteq> []"
  shows "\<exists>k rs. 1 \<le> k \<and> k \<le> length ranges \<and> length rs = k \<and>
           (\<forall>x \<in> set (butlast rs). barren channel x) \<and>
           (barren channel (last rs) \<longrightarrow> k = length ranges) \<and>
           r = fst (verdict channel os e (last rs)) \<and>
           console w' = console w @
             map2 Fetch (map (search_params channel os e) (take k ranges)) rs @
             snd (verdict channel os e (last rs))"
  using assms
proof (induction ranges arbitrary: w)
  case Nil
  then show ?case by simp
next
  case (Cons range_size rest)
  let ?q = "search_params channel os e"
  let ?P = "\<lambda>v ws k rs. 1 \<le> k \<and> k \<le> length ws \<and> length rs = k \<and>
           (\<forall>x \<in> set (butlast rs). barren channel x) \<and>
           (barren channel (last rs) \<longrightarrow> k = length ws) \<and>
           r = fst (verdict channel os e (last rs)) \<and>
           console w' = console v @ map2 Fetch (map ?q (take k ws)) rs @
             snd (verdict channel os e (last rs))"
  have again: "\<exists>k rs. ?P w (range_size # rest) k rs"
    if f: "fetch_messages sdk (?q range_size) w = (Returns env, w1)"
      and b: "barren channel (Returns env)"
      and rec: "search_loop sdk channel (Some os) e rest w1 = (r, w')"
    for env w1
  proof (cases rest)
    case Nil
    with rec have "r = Inr 0" "w' = w1" by simp_all
    then have "?P w (range_size # rest) 1 [Returns env]"
      using Nil b fetch_messagesD(1)[OF f] by (simp add: verdict_def)
    then show ?thesis by blast
  next
    case (Cons a list)
    then have "rest \<noteq> []" by simp
    from Cons.IH[OF rec this] obtain k rs where krs: "?P w1 rest k rs" by blast
    then have ne: "rs \<noteq> []" by auto
    have "?P w (range_size # rest) (Suc k) (Returns env # rs)"
      using krs ne b fetch_messagesD(1)[OF f] by simp
    then show ?thesis by blast
  qed
  from Cons.prems(1) show ?case
  proof (cases rule: search_loop_Cons_cases)
    case no_start
    then show ?thesis by simp
  next
    case (raised a x w1)
    then have "?P w (range_size # rest) 1 [Raises x]"
      using fetch_messagesD(1)[OF raised(2)] by (simp add: verdict_def barren_def)
    then show ?thesis by blast
  next
    case (error a env w1)
    then show ?thesis using again[of env w1] by (simp add: barren_def)
  next
    case (missing a env w1)
    then show ?thesis using again[of env w1] by (simp add: barren_def)
  next
    case (empty a env w1)
    then show ?thesis using again[of env w1] by (simp add: barren_def)
  next
    case (found a env w1 raw)
    then have "?P w (range_size # rest) 1 [Returns env]"
      using fetch_messagesD(1)[OF found(2)] by (simp add: verdict_def barren_def)
    then show ?thesis by blast
  qed
qed




section \<open>The claims\<close>

text \<open>
  C6. \<^verbatim>\<open>count(channel="c", start=100, end=200)\<close> against a store whose first answer is one
  batch of three records with the tokens 150, 160 and 201 returns 2 after a single fetch:
  the records 150 and 160 are counted, the record 201 is beyond the end and is not.
\<close>

theorem C6_example:
  assumes "sdk \<lparr>p_channels = [''c''], p_count = 100, p_start = Some 100, p_end = Some 200,
               p_include_meta = False, p_include_uuid = False\<rparr> (store w) = (Returns env, st)"
    and "\<not> status_is_error env"
    and "map_of (result_channels env) ''c'' = Some raw"
    and "map timetoken raw = [150, 160, 201]"
  shows "\<exists>w'. count_messages_in_channel (Suc n) sdk ''c'' (Some 100) (Some 200) w = Some (2, w')
           \<and> map timetoken (counted (console w')) = map timetoken (counted (console w)) @ [150, 160]"
proof -
  from assms(4) obtain a b c where raw: "raw = [a, b, c]"
    and tt: "timetoken a = 150" "timetoken b = 160" "timetoken c = 201"
    by (auto simp: map_eq_Cons_conv)
  have new: "newest raw = 201" and old: "oldest raw = 150"
    by (simp_all add: raw tt newest_def oldest_def)
  have first: "on_first_batch (Some 200) (initial_locals (Some 100)) raw = Keep_paging False"
    by (simp add: on_first_batch_def initial_locals_def truthy_def truthy_and_def old)
  have filt: "filter (should_include (Some 100) (Some 200) False) raw = [a, b]"
    by (simp add: raw tt should_include_def truthy_and_def)
  have pb: "process_batch (Some 100) (Some 200)
        ((initial_locals (Some 100))\<lparr>api_ignoring_start := False\<rparr>) raw
      = (Break, (initial_locals (Some 100))\<lparr>api_ignoring_start := False,
           first_iteration := False, total_count := 2\<rparr>, [Filtered_batch [a, b]])"
    by (simp add: process_batch_def filt new truthy_and_def initial_locals_def) (simp add: raw)
  have bp: "build_params ''c'' (Some 200) (initial_locals (Some 100)) =
      \<lparr>p_channels = [''c''], p_count = 100, p_start = Some 100, p_end = Some 200,
       p_include_meta = False, p_include_uuid = False\<rparr>"
    by (simp add: build_params_def initial_locals_def truthy_def truthy_and_def)
  show ?thesis
    by (simp add: fetch_messages_def bp assms(1,2,3) first pb) (simp add: tt)
qed

theorem C6_example_witness:
  "\<exists>w'. count_messages_in_channel (Suc 0) scripted ''c'' (Some 100) (Some 200)
          (fresh [batch ''c'' [150, 160, 201]]) = Some (2, w') \<and>
        map timetoken (counted (console w')) = [150, 160]"
  using C6_example [where sdk = scripted and w = "fresh [batch ''c'' [150, 160, 201]]"
      and env = "\<lparr>status_is_error = False, result_channels = [(''c'', map msg [150, 160, 201])]\<rparr>"
      and st = "[]" and raw = "map msg [150, 160, 201]" and n = 0]
  by (simp add: scripted_def fresh_def batch_def msg_def)

text \<open>
  C8. With \<^verbatim>\<open>--start 5 --end 0\<close> both bounds are supplied and start is not below end, but the
  validation of line 388 tests the truth value of each bound: the end 0 counts as absent,
  the store is called and the exit code is 0.
\<close>

theorem C8_counterexample:
  "main (Suc 0) scripted
     \<lparr>arg_publish_key = ''pub'', arg_subscribe_key = ''sub'', arg_channel = ''c'',
      arg_start = Some 5, arg_end = Some 0\<rparr> (fresh []) =
   Some (0, \<lparr>store = [],
             console =
               [Count_started,
                Fetch \<lparr>p_channels = [''c''], p_count = 100, p_start = Some 5, p_end = None,
                       p_include_meta = False, p_include_uuid = False\<rparr>
                      (Returns \<lparr>status_is_error = False, result_channels = []\<rparr>),
                No_messages_found, Total_message_count 0]\<rparr>)"
  by (simp add: main_def truthy_and_def truthy_def fresh_def scripted_def say_def
        fetch_messages_def build_params_def initial_locals_def)

text \<open>
  C8, as the code has it: when both bounds are supplied and neither is 0, and start is not
  below end, the program prints the validation error and exits with code 1; the store has
  not been called (its state and the rest of the console are untouched), whatever the
  number of iterations allowed.
\<close>

theorem C8_validation:
  assumes "arg_start a = Some s" and "arg_end a = Some e" and "s \<noteq> 0" and "e \<noteq> 0" and "s \<ge> e"
  shows "main n sdk a w = Some (1, say Validation_error w)"
  using assms by (simp add: main_def truthy_and_def)

theorem C8_validation_witness:
  "main 0 scripted
     \<lparr>arg_publish_key = ''pub'', arg_subscribe_key = ''sub'', arg_channel = ''c'',
      arg_start = Some 200, arg_end = Some 100\<rparr> (fresh [store_error]) =
   Some (1, \<lparr>store = [store_error], console = [Validation_error]\<rparr>)"
  using C8_validation [where a = "\<lparr>arg_publish_key = ''pub'', arg_subscribe_key = ''sub'',
      arg_channel = ''c'', arg_start = Some 200, arg_end = Some 100\<rparr>" and s = 200 and e = 100
      and n = 0 and sdk = scripted and w = "fresh [store_error]"]
  by (simp add: say_def fresh_def)

text \<open>
  C10. A count enters at most one of the two heuristic sub-procedures and is entered at
  most twice (the run itself and the one the full scan starts), so the recursion is at
  most one deep. The run that the full scan starts has no start cursor: it detects
  nothing, enters no sub-procedure of its own and starts no further count.
\<close>

theorem C10_depth:
  assumes "count_messages_in_channel n sdk channel s e w = Some (c, w')"
  shows "heuristic_entries (console w') \<le> heuristic_entries (console w) + 1 \<and>
         counter_entries (console w') \<le> counter_entries (console w) + 2 \<and>
         (\<forall>k v c1 v'. count_all_messages k sdk channel v = Some (c1, v') \<longrightarrow>
            detections (console v') = detections (console v) \<and>
            heuristic_entries (console v') = heuristic_entries (console v) + 1 \<and>
            counter_entries (console v') = counter_entries (console v) + 1)"
proof -
  from assms have "while_true n sdk channel s e (initial_locals s) (say Count_started w)
      = Some (c, w')"
    by simp
  from while_true_console[OF this] obtain evs where
    "console w' = console w @ Count_started # evs" "heuristic_entries evs \<le> 1"
    "counter_entries evs \<le> 1"
    by auto
  then have top: "heuristic_entries (console w') \<le> heuristic_entries (console w) + 1"
    "counter_entries (console w') \<le> counter_entries (console w) + 2"
    by simp_all
  have nested: "detections (console v') = detections (console v) \<and>
            heuristic_entries (console v') = heuristic_entries (console v) + 1 \<and>
            counter_entries (console v') = counter_entries (console v) + 1"
    if "count_all_messages k sdk channel v = Some (c1, v')" for k v c1 v'
    using count_all_messages_console[OF that] by auto
  from top nested show ?thesis by blast
qed

theorem C10_depth_witness:
  "\<exists>c w'. count_messages_in_channel 2 scripted ''c'' (Some 1) (Some 2000000000000000)
            (fresh [batch ''c'' [100000000000002],
                    batch ''c'' [100000000000002, 3000000000000000]]) = Some (c, w') \<and>
          heuristic_entries (console w') = 1 \<and> counter_entries (console w') = 2 \<and>
          detections (console w') = 1"
proof -
  obtain r where r: "count_messages_in_channel 2 scripted ''c'' (Some 1) (Some 2000000000000000)
            (fresh [batch ''c'' [100000000000002],
                    batch ''c'' [100000000000002, 3000000000000000]]) = r"
    by simp
  have run: "r = Some (2, \<lparr>store = [], console =
     [Count_started,
      Fetch \<lparr>p_channels = [''c''], p_count = 100, p_start = Some 1,
             p_end = Some 2000000000000000, p_include_meta = False, p_include_uuid = False\<rparr>
            (batch ''c'' [100000000000002]),
      Ignoring_start_detected, Full_scan_started, Count_started,
      Fetch \<lparr>p_channels = [''c''], p_count = 100, p_start = None, p_end = None,
             p_include_meta = False, p_include_uuid = False\<rparr>
            (batch ''c'' [100000000000002, 3000000000000000]),
      Filtered_batch [msg 100000000000002, msg 3000000000000000]]\<rparr>)"
    unfolding r[symmetric]
    by (simp add: numeral_2_eq_2 fresh_def scripted_def batch_def msg_def say_def says_def
          fetch_messages_def build_params_def initial_locals_def truthy_def truthy_and_def
          on_first_batch_def process_batch_def should_include_def newest_def oldest_def)
  from C10_depth[OF r[unfolded run]] show ?thesis
    unfolding r run by simp
qed




text \<open>
  C7. Start 0, no end, and one batch with the tokens -5, 0 and 7. The start 0 is falsy:
  it is not sent to the store, the detection cannot fire, and line 222 filters nothing.
  All three records are counted, two of them with a token that is not above the start.
\<close>

theorem C7_counterexample:
  "count_messages_in_channel 1 scripted ''c'' (Some 0) None (fresh [batch ''c'' [-5, 0, 7]]) =
   Some (3, \<lparr>store = [],
             console =
               [Count_started,
                Fetch \<lparr>p_channels = [''c''], p_count = 100, p_start = None, p_end = None,
                       p_include_meta = False, p_include_uuid = False\<rparr>
                      (batch ''c'' [-5, 0, 7]),
                Filtered_batch [msg (-5), msg 0, msg 7]]\<rparr>)"
  by (simp add: fresh_def scripted_def batch_def msg_def say_def says_def
        fetch_messages_def build_params_def initial_locals_def truthy_def truthy_and_def
        on_first_batch_def process_batch_def should_include_def newest_def oldest_def)

text \<open>
  C7, as the code has it: when the start token is set and is not 0, and the detection of
  an ignored start does not fire, the number returned is the number of records reported
  as counted and each of them has a token strictly above the start the caller gave: the
  bound is the argument of the call in every iteration, not the cursor.
\<close>

theorem C7_start_bound:
  assumes "count_messages_in_channel n sdk channel (Some s) e w = Some (c, w')"
    and "s \<noteq> 0" and "Ignoring_start_detected \<notin> set (console w')" and "console w = []"
  shows "c = length (counted (console w')) \<and>
         (\<forall>m \<in> set (counted (console w')). s < timetoken m)"
proof -
  from assms(1) have loop: "while_true n sdk channel (Some s) e (initial_locals (Some s))
      (say Count_started w) = Some (c, w')"
    by simp
  from while_true_start_bound[OF loop assms(2,3)] assms(4)
  have "\<forall>m \<in> set (counted (console w')). s < timetoken m" by simp
  moreover have "c = length (counted (console w'))"
    using count_messages_in_channel_total[OF assms(1)] assms(4) by simp
  ultimately show ?thesis by blast
qed

theorem C7_start_bound_witness:
  "\<exists>c w'. count_messages_in_channel 1 scripted ''c'' (Some 100) None
            (fresh [batch ''c'' [90, 100, 101, 150]]) = Some (c, w') \<and>
          Ignoring_start_detected \<notin> set (console w') \<and> c = 2 \<and>
          c = length (counted (console w')) \<and>
          (\<forall>m \<in> set (counted (console w')). 100 < timetoken m)"
proof -
  have run: "count_messages_in_channel 1 scripted ''c'' (Some 100) None
            (fresh [batch ''c'' [90, 100, 101, 150]]) =
    Some (2, \<lparr>store = [],
      console =
        [Count_started,
         Fetch \<lparr>p_channels = [''c''], p_count = 100, p_start = Some 100,
                p_end = None, p_include_meta = False, p_include_uuid = False\<rparr>
               (batch ''c'' [90, 100, 101, 150]),
         Filtered_batch [msg 101, msg 150]]\<rparr>)"
    by (simp add: fresh_def scripted_def batch_def msg_def say_def says_def
        fetch_messages_def build_params_def initial_locals_def truthy_def truthy_and_def
        on_first_batch_def process_batch_def should_include_def newest_def oldest_def)
  from C7_start_bound[OF run] show ?thesis
    unfolding run by (simp add: fresh_def)
qed





text \<open>
  C3. Start 1, end 5; the first batch holds one record at 200000000000000, so the
  detection fires and the backward search starts. Every window is clamped to the start,
  so each of its fetches is the same request. When the first of them yields a store-level
  error response the search goes on: the same request is sent again, its batch is
  counted and the counter returns 1. When it raises instead, the count ends there and
  returns 0. The failed fetch did not end the procedure in the first run, and the two
  error kinds are not treated alike.
\<close>

theorem C3_counterexample:
  "count_messages_in_channel 1 scripted ''c'' (Some 1) (Some 5)
     (fresh [batch ''c'' [200000000000000], store_error, batch ''c'' [3]]) =
   Some (1, \<lparr>store = [],
             console =
               [Count_started,
                Fetch \<lparr>p_channels = [''c''], p_count = 100, p_start = Some 1, p_end = Some 5,
                       p_include_meta = False, p_include_uuid = False\<rparr>
                      (batch ''c'' [200000000000000]),
                Ignoring_start_detected, Bisection_started,
                Fetch \<lparr>p_channels = [''c''], p_count = 100, p_start = Some 1, p_end = Some 5,
                       p_include_meta = False, p_include_uuid = False\<rparr> store_error,
                Fetch \<lparr>p_channels = [''c''], p_count = 100, p_start = Some 1, p_end = Some 5,
                       p_include_meta = False, p_include_uuid = False\<rparr> (batch ''c'' [3]),
                Filtered_batch [msg 3]]\<rparr>) \<and>
   count_messages_in_channel 1 scripted ''c'' (Some 1) (Some 5)
     (fresh [batch ''c'' [200000000000000], Raises PubNubException, batch ''c'' [3]]) =
   Some (0, \<lparr>store = [batch ''c'' [3]],
             console =
               [Count_started,
                Fetch \<lparr>p_channels = [''c''], p_count = 100, p_start = Some 1, p_end = Some 5,
                       p_include_meta = False, p_include_uuid = False\<rparr>
                      (batch ''c'' [200000000000000]),
                Ignoring_start_detected, Bisection_started,
                Fetch \<lparr>p_channels = [''c''], p_count = 100, p_start = Some 1, p_end = Some 5,
                       p_include_meta = False, p_include_uuid = False\<rparr>
                      (Raises PubNubException),
                Pubnub_error]\<rparr>)"
  by (simp add: fresh_def scripted_def batch_def store_error_def msg_def say_def says_def
        fetch_messages_def build_params_def initial_locals_def truthy_def truthy_and_def
        on_first_batch_def newest_def oldest_def find_actual_start_near_end_def
        search_ranges_def search_params_def)

text \<open>
  C3, as the code has it. A failed fetch of the pagination loop, of either kind, ends the
  loop at once: the result is the count accumulated so far and the console shows this
  fetch and the line of the error, nothing after; the two kinds differ in that line only.
  No exception leaves the counter: one that comes out of the backward search is caught
  by the same two clauses of the loop, which prints the line of its kind and returns its
  count so far. Inside the backward search the two kinds
  differ: an exception ends the search, an error response moves on to the next width.
\<close>

theorem C3_failed_fetch:
  assumes "failed r"
  shows "(sdk (build_params channel e l) (store w) = (r, st) \<longrightarrow>
            while_true (Suc n) sdk channel s e l w =
              Some (total_count l,
                    \<lparr>store = st,
                     console = console w @
                       [Fetch (build_params channel e l) r,
                        case r of Raises PubNubException \<Rightarrow> Pubnub_error
                                | Raises OtherException \<Rightarrow> Unexpected_error
                                | Returns env \<Rightarrow> Error_fetching]\<rparr>)) \<and>
         (sdk (search_params channel a b range_size) (store w) = (r, st) \<longrightarrow>
            search_loop sdk channel (Some a) b (range_size # rest) w =
              (case r of
                 Raises x \<Rightarrow>
                   (Inl x, \<lparr>store = st, console = console w @
                             [Fetch (search_params channel a b range_size) r]\<rparr>)
               | Returns env \<Rightarrow>
                   search_loop sdk channel (Some a) b rest
                     \<lparr>store = st, console = console w @
                             [Fetch (search_params channel a b range_size) r]\<rparr>)) \<and>
         (fetch_messages sdk (build_params channel e l) w = (Returns env1, w1) \<longrightarrow>
          \<not> status_is_error env1 \<longrightarrow>
          map_of (result_channels env1) channel = Some raw \<longrightarrow>
          on_first_batch e l raw = Bisection b \<longrightarrow>
          find_actual_start_near_end sdk channel s b (say Ignoring_start_detected w1) = (Inl x, w2) \<longrightarrow>
            while_true (Suc n) sdk channel s e l w =
              Some (total_count l,
                    say (case x of PubNubException \<Rightarrow> Pubnub_error
                                 | OtherException \<Rightarrow> Unexpected_error) w2))"
proof (intro conjI impI)
  assume "sdk (build_params channel e l) (store w) = (r, st)"
  then show "while_true (Suc n) sdk channel s e l w =
              Some (total_count l,
                    \<lparr>store = st,
                     console = console w @
                       [Fetch (build_params channel e l) r,
                        case r of Raises PubNubException \<Rightarrow> Pubnub_error
                                | Raises OtherException \<Rightarrow> Unexpected_error
                                | Returns env \<Rightarrow> Error_fetching]\<rparr>)"
    using assms
    by (cases r) (auto simp: fetch_messages_def say_def split: exn.splits)
next
  assume "sdk (search_params channel a b range_size) (store w) = (r, st)"
  then show "search_loop sdk channel (Some a) b (range_size # rest) w =
              (case r of
                 Raises x \<Rightarrow>
                   (Inl x, \<lparr>store = st, console = console w @
                             [Fetch (search_params channel a b range_size) r]\<rparr>)
               | Returns env \<Rightarrow>
                   search_loop sdk channel (Some a) b rest
                     \<lparr>store = st, console = console w @
                             [Fetch (search_params channel a b range_size) r]\<rparr>)"
    using assms
    by (cases r) (simp_all add: fetch_messages_def)
next
  assume "fetch_messages sdk (build_params channel e l) w = (Returns env1, w1)"
    "\<not> status_is_error env1" "map_of (result_channels env1) channel = Some raw"
    "on_first_batch e l raw = Bisection b"
    "find_actual_start_near_end sdk channel s b (say Ignoring_start_detected w1) = (Inl x, w2)"
  then show "while_true (Suc n) sdk channel s e l w =
              Some (total_count l,
                    say (case x of PubNubException \<Rightarrow> Pubnub_error
                                 | OtherException \<Rightarrow> Unexpected_error) w2)"
    by (cases x) simp_all
qed

theorem C3_failed_fetch_witness:
  "while_true (Suc 0) scripted ''c'' None None
     \<lparr>total_count = 7, current_start = Some 50, first_iteration = False,
      previous_oldest_timetoken = Some 50, api_ignoring_start = False\<rparr>
     \<lparr>store = [store_error], console = []\<rparr> =
   Some (7, \<lparr>store = [],
             console =
               [Fetch \<lparr>p_channels = [''c''], p_count = 100, p_start = Some 50, p_end = None,
                       p_include_meta = False, p_include_uuid = False\<rparr> store_error,
                Error_fetching]\<rparr>) \<and>
   search_loop scripted ''c'' (Some 1) 5 [2 * 10 ^ 7, 5 * 10 ^ 7]
     \<lparr>store = [store_error, batch ''c'' [3]], console = []\<rparr> =
   (Inr 1, \<lparr>store = [],
            console =
              [Fetch \<lparr>p_channels = [''c''], p_count = 100, p_start = Some 1, p_end = Some 5,
                      p_include_meta = False, p_include_uuid = False\<rparr> store_error,
               Fetch \<lparr>p_channels = [''c''], p_count = 100, p_start = Some 1, p_end = Some 5,
                      p_include_meta = False, p_include_uuid = False\<rparr> (batch ''c'' [3]),
               Filtered_batch [msg 3]]\<rparr>) \<and>
   while_true (Suc 0) scripted ''c'' (Some 1) (Some 5) (initial_locals (Some 1))
     \<lparr>store = [batch ''c'' [200000000000000], Raises PubNubException], console = []\<rparr> =
   Some (0, \<lparr>store = [],
             console =
               [Fetch \<lparr>p_channels = [''c''], p_count = 100, p_start = Some 1, p_end = Some 5,
                       p_include_meta = False, p_include_uuid = False\<rparr>
                      (batch ''c'' [200000000000000]),
                Ignoring_start_detected, Bisection_started,
                Fetch \<lparr>p_channels = [''c''], p_count = 100, p_start = Some 1, p_end = Some 5,
                       p_include_meta = False, p_include_uuid = False\<rparr>
                      (Raises PubNubException),
                Pubnub_error]\<rparr>)"
proof (intro conjI)
  have f: "failed store_error" by (simp add: store_error_def)
  have "scripted (build_params ''c'' None
     \<lparr>total_count = 7, current_start = Some 50, first_iteration = False,
      previous_oldest_timetoken = Some 50, api_ignoring_start = False\<rparr>)
     (store \<lparr>store = [store_error], console = []\<rparr>) = (store_error, [])"
    by (simp add: scripted_def)
  with C3_failed_fetch[OF f, THEN conjunct1, of scripted "''c''" None
      "\<lparr>total_count = 7, current_start = Some 50, first_iteration = False,
      previous_oldest_timetoken = Some 50, api_ignoring_start = False\<rparr>"
      "\<lparr>store = [store_error], console = []\<rparr>" "[]" 0 None]
  show "while_true (Suc 0) scripted ''c'' None None
     \<lparr>total_count = 7, current_start = Some 50, first_iteration = False,
      previous_oldest_timetoken = Some 50, api_ignoring_start = False\<rparr>
     \<lparr>store = [store_error], console = []\<rparr> =
   Some (7, \<lparr>store = [],
             console =
               [Fetch \<lparr>p_channels = [''c''], p_count = 100, p_start = Some 50, p_end = None,
                       p_include_meta = False, p_include_uuid = False\<rparr> store_error,
                Error_fetching]\<rparr>)"
    by (simp add: build_params_def truthy_def store_error_def)
next
  have f: "failed store_error" by (simp add: store_error_def)
  have prem: "scripted (search_params ''c'' 1 5 (2 * 10 ^ 7))
     (store \<lparr>store = [store_error, batch ''c'' [3]], console = []\<rparr>) =
     (store_error, [batch ''c'' [3]])"
    by (simp add: scripted_def)
  note step = C3_failed_fetch[where r = store_error and sdk = scripted and channel = "''c''"
      and a = 1 and b = 5 and range_size = "2 * 10 ^ 7" and rest = "[5 * 10 ^ 7]"
      and w = "\<lparr>store = [store_error, batch ''c'' [3]], console = []\<rparr>"
      and st = "[batch ''c'' [3]]", OF f, THEN conjunct2, THEN conjunct1, rule_format, OF prem]
  have "search_loop scripted ''c'' (Some 1) 5 [2 * 10 ^ 7, 5 * 10 ^ 7]
          \<lparr>store = [store_error, batch ''c'' [3]], console = []\<rparr> =
        search_loop scripted ''c'' (Some 1) 5 [5 * 10 ^ 7]
          \<lparr>store = [batch ''c'' [3]],
           console = [Fetch (search_params ''c'' 1 5 (2 * 10 ^ 7)) store_error]\<rparr>"
    using step by (simp add: store_error_def del: search_loop.simps)
  also have "\<dots> =
   (Inr 1, \<lparr>store = [],
            console =
              [Fetch \<lparr>p_channels = [''c''], p_count = 100, p_start = Some 1, p_end = Some 5,
                      p_include_meta = False, p_include_uuid = False\<rparr> store_error,
               Fetch \<lparr>p_channels = [''c''], p_count = 100, p_start = Some 1, p_end = Some 5,
                      p_include_meta = False, p_include_uuid = False\<rparr> (batch ''c'' [3]),
               Filtered_batch [msg 3]]\<rparr>)"
    by (simp add: scripted_def batch_def msg_def say_def fetch_messages_def search_params_def)
  finally show "search_loop scripted ''c'' (Some 1) 5 [2 * 10 ^ 7, 5 * 10 ^ 7]
     \<lparr>store = [store_error, batch ''c'' [3]], console = []\<rparr> =
   (Inr 1, \<lparr>store = [],
            console =
              [Fetch \<lparr>p_channels = [''c''], p_count = 100, p_start = Some 1, p_end = Some 5,
                      p_include_meta = False, p_include_uuid = False\<rparr> store_error,
               Fetch \<lparr>p_channels = [''c''], p_count = 100, p_start = Some 1, p_end = Some 5,
                      p_include_meta = False, p_include_uuid = False\<rparr> (batch ''c'' [3]),
               Filtered_batch [msg 3]]\<rparr>)" .
next
  have f: "failed store_error" by (simp add: store_error_def)
  let ?p = "\<lparr>p_channels = [''c''], p_count = 100, p_start = Some 1, p_end = Some 5,
             p_include_meta = False, p_include_uuid = False\<rparr>"
  let ?w = "\<lparr>store = [batch ''c'' [200000000000000], Raises PubNubException],
             console = []\<rparr> :: fetched list world"
  let ?env = "\<lparr>status_is_error = False,
               result_channels = [(''c'', [msg 200000000000000])]\<rparr>"
  let ?w1 = "\<lparr>store = [Raises PubNubException],
              console = [Fetch ?p (Returns ?env)]\<rparr> :: fetched list world"
  let ?w2 = "\<lparr>store = [],
              console = [Fetch ?p (Returns ?env), Ignoring_start_detected, Bisection_started,
                         Fetch ?p (Raises PubNubException)]\<rparr> :: fetched list world"
  have bp: "build_params ''c'' (Some 5) (initial_locals (Some 1)) = ?p"
    by (simp add: build_params_def initial_locals_def truthy_def truthy_and_def)
  have h1: "fetch_messages scripted (build_params ''c'' (Some 5) (initial_locals (Some 1))) ?w
      = (Returns ?env, ?w1)"
    unfolding bp by (simp add: fetch_messages_def scripted_def batch_def)
  have h2: "\<not> status_is_error ?env" by simp
  have h3: "map_of (result_channels ?env) ''c'' = Some [msg 200000000000000]" by simp
  have h4: "on_first_batch (Some 5) (initial_locals (Some 1)) [msg 200000000000000] = Bisection 5"
    by (simp add: on_first_batch_def initial_locals_def truthy_def truthy_and_def
          oldest_def newest_def msg_def)
  have h5: "find_actual_start_near_end scripted ''c'' (Some 1) 5 (say Ignoring_start_detected ?w1)
      = (Inl PubNubException, ?w2)"
    by (simp add: find_actual_start_near_end_def search_ranges_def search_params_def
          fetch_messages_def scripted_def say_def)
  from C3_failed_fetch[OF f, THEN conjunct2, THEN conjunct2, rule_format, OF h1 h2 h3 h4 h5,
      of 0]
  show "while_true (Suc 0) scripted ''c'' (Some 1) (Some 5) (initial_locals (Some 1))
     \<lparr>store = [batch ''c'' [200000000000000], Raises PubNubException], console = []\<rparr> =
   Some (0, \<lparr>store = [],
             console =
               [Fetch \<lparr>p_channels = [''c''], p_count = 100, p_start = Some 1, p_end = Some 5,
                       p_include_meta = False, p_include_uuid = False\<rparr>
                      (batch ''c'' [200000000000000]),
                Ignoring_start_detected, Bisection_started,
                Fetch \<lparr>p_channels = [''c''], p_count = 100, p_start = Some 1, p_end = Some 5,
                       p_include_meta = False, p_include_uuid = False\<rparr>
                      (Raises PubNubException),
                Pubnub_error]\<rparr>)"
    by (simp add: initial_locals_def say_def batch_def del: while_true.simps)
qed

text \<open>
  C9. A bound equal to 0 is taken as absent everywhere. The counter called with start 0
  does what it does without a start, and called with end 0 what it does without an end:
  the same calls of the store, the same console, the same result. The same holds for the
  program, whose validation is skipped. No start is sent on the first fetch of a count
  with start 0, no end is ever sent when the end is 0, and a bound of 0 filters nothing.
\<close>

theorem C9_zero_is_absent:
  "count_messages_in_channel n sdk channel (Some 0) e w =
     count_messages_in_channel n sdk channel None e w \<and>
   count_messages_in_channel n sdk channel s (Some 0) w =
     count_messages_in_channel n sdk channel s None w \<and>
   main n sdk (a\<lparr>arg_start := Some 0\<rparr>) w = main n sdk (a\<lparr>arg_start := None\<rparr>) w \<and>
   main n sdk (a\<lparr>arg_end := Some 0\<rparr>) w = main n sdk (a\<lparr>arg_end := None\<rparr>) w \<and>
   p_start (build_params channel e (initial_locals (Some 0))) = None \<and>
   p_end (build_params channel (Some 0) l) = None \<and>
   should_include (Some 0) None g m \<and> should_include None (Some 0) g m"
proof -
  have start: "count_messages_in_channel n sdk channel (Some 0) e w =
     count_messages_in_channel n sdk channel None e w" for n channel e and w :: "'a world"
    using while_true_same_bounds[of "Some 0" None e e "initial_locals (Some 0)" None
        n sdk channel "say Count_started w"]
    by (simp add: initial_locals_def truthy_def)
  have "end": "count_messages_in_channel n sdk channel s (Some 0) w =
     count_messages_in_channel n sdk channel s None w" for n channel s and w :: "'a world"
    using while_true_same_bounds[of s s "Some 0" None "initial_locals s" s
        n sdk channel "say Count_started w"]
    by (simp add: initial_locals_def)
  have m1: "main n sdk (a\<lparr>arg_start := Some 0\<rparr>) w = main n sdk (a\<lparr>arg_start := None\<rparr>) w"
    by (simp add: main_def truthy_and_def start del: count_messages_in_channel.simps)
  have m2: "main n sdk (a\<lparr>arg_end := Some 0\<rparr>) w = main n sdk (a\<lparr>arg_end := None\<rparr>) w"
    by (simp add: main_def truthy_and_def "end" del: count_messages_in_channel.simps
          split: option.splits)
  have p1: "p_start (build_params channel e (initial_locals (Some 0))) = None"
    by (simp add: build_params_def initial_locals_def truthy_def)
  have p2: "p_end (build_params channel (Some 0) l) = None"
    by (simp add: build_params_def truthy_def)
  have s1: "should_include (Some 0) None g m" "should_include None (Some 0) g m"
    by (simp_all add: should_include_def truthy_and_def)
  from start "end" m1 m2 p1 p2 s1 show ?thesis by blast
qed

theorem C9_zero_is_absent_witness:
  "count_messages_in_channel 1 scripted ''c'' (Some 0) (Some 200) (fresh [batch ''c'' [-3, 150, 201]]) =
     count_messages_in_channel 1 scripted ''c'' None (Some 200) (fresh [batch ''c'' [-3, 150, 201]]) \<and>
   count_messages_in_channel 1 scripted ''c'' None (Some 200) (fresh [batch ''c'' [-3, 150, 201]]) =
     Some (2, \<lparr>store = [],
               console =
                 [Count_started,
                  Fetch \<lparr>p_channels = [''c''], p_count = 100, p_start = None, p_end = Some 200,
                         p_include_meta = False, p_include_uuid = False\<rparr>
                        (batch ''c'' [-3, 150, 201]),
                  Filtered_batch [msg (-3), msg 150]]\<rparr>)"
proof (rule conjI)
  show "count_messages_in_channel 1 scripted ''c'' (Some 0) (Some 200) (fresh [batch ''c'' [-3, 150, 201]]) =
     count_messages_in_channel 1 scripted ''c'' None (Some 200) (fresh [batch ''c'' [-3, 150, 201]])"
    by (rule conjunct1[OF C9_zero_is_absent])
next
  show "count_messages_in_channel 1 scripted ''c'' None (Some 200) (fresh [batch ''c'' [-3, 150, 201]]) =
     Some (2, \<lparr>store = [],
               console =
                 [Count_started,
                  Fetch \<lparr>p_channels = [''c''], p_count = 100, p_start = None, p_end = Some 200,
                         p_include_meta = False, p_include_uuid = False\<rparr>
                        (batch ''c'' [-3, 150, 201]),
                  Filtered_batch [msg (-3), msg 150]]\<rparr>)"
    by (simp add: fresh_def scripted_def batch_def msg_def say_def says_def
        fetch_messages_def build_params_def initial_locals_def truthy_def truthy_and_def
        on_first_batch_def process_batch_def should_include_def newest_def oldest_def)
qed

text \<open>
  C4. The backward search tries the widths 2*10^7, 5*10^7, 10^8, 10^9 and 10^10 in this
  (ascending) order. Its fetches are the first \<open>k\<close> of the five requests with
  start = max (end - W) original_start, end = end and limit 100, and nothing else is
  sent. Every answer before the last is barren; the last answer decides: an exception
  leaves the search, a batch with at least one record gives at once the number of its
  records with original_start < token <= end, of whatever length the batch is (also 100),
  and a barren last answer means that all five widths were tried and gives 0.
\<close>

theorem C4_bisection:
  assumes "find_actual_start_near_end sdk channel (Some os) e w = (r, w')"
  shows "search_ranges = [2 * 10 ^ 7, 5 * 10 ^ 7, 10 ^ 8, 10 ^ 9, 10 ^ 10] \<and>
         sorted_wrt (<) search_ranges \<and>
         (\<exists>k rs. 1 \<le> k \<and> k \<le> 5 \<and> length rs = k \<and>
            (\<forall>x \<in> set (butlast rs). barren channel x) \<and>
            (barren channel (last rs) \<longrightarrow> k = 5) \<and>
            r = fst (verdict channel os e (last rs)) \<and>
            console w' = console w @ Bisection_started #
              map2 Fetch
                (map (\<lambda>W. \<lparr>p_channels = [channel], p_count = 100,
                            p_start = Some (max (e - W) os), p_end = Some e,
                            p_include_meta = False, p_include_uuid = False\<rparr>)
                     (take k search_ranges)) rs @
              snd (verdict channel os e (last rs)))"
proof -
  have ranges: "search_ranges = [2 * 10 ^ 7, 5 * 10 ^ 7, 10 ^ 8, 10 ^ 9, 10 ^ 10]"
    "sorted_wrt (<) search_ranges" "length search_ranges = 5" "search_ranges \<noteq> []"
    by (simp_all add: search_ranges_def)
  from assms have run: "search_loop sdk channel (Some os) e search_ranges
      (say Bisection_started w) = (r, w')"
    by (simp add: find_actual_start_near_end_def)
  from search_loop_trace[OF run ranges(4)] obtain k rs where
    "1 \<le> k" "k \<le> length search_ranges" "length rs = k"
    "\<forall>x \<in> set (butlast rs). barren channel x"
    "barren channel (last rs) \<longrightarrow> k = length search_ranges"
    "r = fst (verdict channel os e (last rs))"
    "console w' = console (say Bisection_started w) @
       map2 Fetch (map (search_params channel os e) (take k search_ranges)) rs @
       snd (verdict channel os e (last rs))"
    by blast
  then have "1 \<le> k \<and> k \<le> 5 \<and> length rs = k \<and>
            (\<forall>x \<in> set (butlast rs). barren channel x) \<and>
            (barren channel (last rs) \<longrightarrow> k = 5) \<and>
            r = fst (verdict channel os e (last rs)) \<and>
            console w' = console w @ Bisection_started #
              map2 Fetch
                (map (\<lambda>W. \<lparr>p_channels = [channel], p_count = 100,
                            p_start = Some (max (e - W) os), p_end = Some e,
                            p_include_meta = False, p_include_uuid = False\<rparr>)
                     (take k search_ranges)) rs @
              snd (verdict channel os e (last rs))"
    unfolding search_params_max[symmetric] ranges(3) by simp
  with ranges(1,2) show ?thesis by blast
qed

theorem C4_bisection_witness:
  "\<exists>r w' k rs. find_actual_start_near_end scripted ''c'' (Some 0) 1000
               (fresh [batch ''c'' [1..100], batch ''c'' [1..150]]) = (r, w') \<and>
     r = Inr 100 \<and> store w' = [batch ''c'' [1..150]] \<and> length (fetches (console w')) = 1 \<and>
     1 \<le> k \<and> k \<le> 5 \<and> length rs = k \<and> r = fst (verdict ''c'' 0 1000 (last rs))"
proof -
  obtain r w' where run: "find_actual_start_near_end scripted ''c'' (Some 0) 1000
               (fresh [batch ''c'' [1..100], batch ''c'' [1..150]]) = (r, w')"
    by (cases "find_actual_start_near_end scripted ''c'' (Some 0) 1000
               (fresh [batch ''c'' [1..100], batch ''c'' [1..150]])")
  have "fst (find_actual_start_near_end scripted ''c'' (Some 0) 1000
               (fresh [batch ''c'' [1..100], batch ''c'' [1..150]])) = Inr 100"
    by code_simp
  then have r: "r = Inr 100" using run by simp
  have "store (snd (find_actual_start_near_end scripted ''c'' (Some 0) 1000
               (fresh [batch ''c'' [1..100], batch ''c'' [1..150]]))) = [batch ''c'' [1..150]]"
    by code_simp
  then have st: "store w' = [batch ''c'' [1..150]]" using run by simp
  have "length (fetches (console (snd (find_actual_start_near_end scripted ''c'' (Some 0) 1000
               (fresh [batch ''c'' [1..100], batch ''c'' [1..150]]))))) = 1"
    by code_simp
  then have fe: "length (fetches (console w')) = 1" using run by simp
  from C4_bisection[OF run] obtain k rs where
    "1 \<le> k" "k \<le> 5" "length rs = k" "r = fst (verdict ''c'' 0 1000 (last rs))"
    by blast
  with run r st fe show ?thesis by blast
qed




end
